theory Spec2Isabelle
  imports Main "HOL-Library.Multiset"
begin

section \<open>Python strings\<close>

text \<open>
  A Python \<open>str\<close> is modelled as a \<open>string\<close> (a list of \<open>char\<close>), each \<open>char\<close> standing
  for one code point in the range 0..255 (the range of a WSGI header value). The string
  predicates below are Python's on that range.
\<close>

definition code_point :: "char \<Rightarrow> nat" where
  "code_point c = of_char c"

text \<open>\<open>str.isalnum\<close> of one character: the code points 0..255 that Python classifies as
  alphabetic, decimal, digit or numeric.\<close>

definition isalnum :: "char \<Rightarrow> bool" where
  "isalnum c =
     (let n = code_point c in
        (48 \<le> n \<and> n \<le> 57) \<or> (65 \<le> n \<and> n \<le> 90) \<or> (97 \<le> n \<and> n \<le> 122) \<or>
        n = 170 \<or> (178 \<le> n \<and> n \<le> 179) \<or> n = 181 \<or> (185 \<le> n \<and> n \<le> 186) \<or>
        (188 \<le> n \<and> n \<le> 190) \<or> (192 \<le> n \<and> n \<le> 214) \<or> (216 \<le> n \<and> n \<le> 246) \<or>
        (248 \<le> n \<and> n \<le> 255))"

text \<open>\<open>str.lower\<close>: on 0..255 the upper-case letters are A..Z and the code points
  192..214 and 216..222, and each lower-case partner is 32 further on.\<close>

definition lower_char :: "char \<Rightarrow> char" where
  "lower_char c =
     (let n = code_point c in
        if (65 \<le> n \<and> n \<le> 90) \<or> (192 \<le> n \<and> n \<le> 214) \<or> (216 \<le> n \<and> n \<le> 222)
        then char_of (n + 32) else c)"

definition lower :: "string \<Rightarrow> string" where
  "lower s = map lower_char s"

text \<open>\<open>needle in s\<close>: the needle occurs as a contiguous run of \<open>s\<close>.\<close>

fun startswith :: "string \<Rightarrow> string \<Rightarrow> bool" where
  "startswith s [] = True"
| "startswith [] (n # ns) = False"
| "startswith (c # cs) (n # ns) = (c = n \<and> startswith cs ns)"

fun contains :: "string \<Rightarrow> string \<Rightarrow> bool" where
  "contains needle [] = (needle = [])"
| "contains needle (c # cs) = (startswith (c # cs) needle \<or> contains needle cs)"

section \<open>The models (shortener/models.py)\<close>

text \<open>
  A row of \<open>URL\<close>. Times are integers (seconds on the server's clock). The columns
  \<open>updated_at\<close>, \<open>title\<close>, \<open>description\<close> and \<open>tags\<close> are read by none of the
  functions embedded here and are left out. The class declares no attribute named
  \<open>is_one_time\<close>.
\<close>

record URL =
  pk :: nat
  original_url :: string
  short_code :: string
  created_at :: int
  expires_at :: "int option"
  is_custom :: bool
  created_by :: "nat option"
  is_active :: bool
  password :: string
  click_count :: nat
  last_clicked :: "int option"

text \<open>A row of \<open>Click\<close>; \<open>url_id\<close> is the foreign key to \<open>URL\<close>.\<close>

record Click =
  url_id :: nat
  clicked_at :: int
  ip_address :: "string option"
  referrer :: string
  user_agent :: string
  country :: string
  city :: string
  device_type :: string
  browser :: string
  os :: string

record database =
  urls :: "URL list"
  clicks :: "Click list"

datatype exn =
    DoesNotExist
  | MultipleObjectsReturned
  | AttributeError
  | NoReverseMatch
  | Http404

datatype validation_error = ValidationError string

text \<open>\<open>URL.objects.get(...)\<close>: the one row that passes the filter; \<open>DoesNotExist\<close> when
  there is none, \<open>MultipleObjectsReturned\<close> when there are several.\<close>

definition objects_get :: "(URL \<Rightarrow> bool) \<Rightarrow> URL list \<Rightarrow> exn + URL" where
  "objects_get P us =
     (case filter P us of
        [] \<Rightarrow> Inl DoesNotExist
      | [u] \<Rightarrow> Inr u
      | _ \<Rightarrow> Inl MultipleObjectsReturned)"

text \<open>\<open>URL.objects.filter(short_code=code).exists()\<close>\<close>

definition short_code_exists :: "URL list \<Rightarrow> string \<Rightarrow> bool" where
  "short_code_exists us code = (filter (\<lambda>u. short_code u = code) us \<noteq> [])"

text \<open>\<open>URL.is_expired\<close>, with \<open>now\<close> the reading of \<open>timezone.now()\<close>.\<close>

definition is_expired :: "int \<Rightarrow> URL \<Rightarrow> bool" where
  "is_expired now u = (case expires_at u of None \<Rightarrow> False | Some e \<Rightarrow> now > e)"

section \<open>Requests and responses\<close>

text \<open>
  What a view reads of a request: four entries of \<open>request.META\<close> (\<open>None\<close> when the
  key is absent), the session markers \<open>url_<id>_authenticated\<close> keyed by the link's id, the
  reading of \<open>timezone.now()\<close> while the request is served, and what the GeoIP lookup
  yields for the caller's address (\<open>None\<close> when it raises; country and city otherwise).
\<close>

record request =
  HTTP_X_FORWARDED_FOR :: "string option"
  REMOTE_ADDR :: "string option"
  HTTP_USER_AGENT :: "string option"
  HTTP_REFERER :: "string option"
  session :: "nat \<Rightarrow> bool option"
  now :: int
  geoip :: "(string \<times> string) option"

datatype response =
    HttpResponsePermanentRedirect string
  | HttpResponseRedirect string
  | Render string nat

text \<open>The status a client sees: a raised \<open>Http404\<close> is answered with 404, any other
  exception that leaves the view with 500.\<close>

fun status_code :: "exn + response \<Rightarrow> nat" where
  "status_code (Inl e) = (if e = Http404 then 404 else 500)"
| "status_code (Inr (HttpResponsePermanentRedirect t)) = 301"
| "status_code (Inr (HttpResponseRedirect t)) = 302"
| "status_code (Inr (Render template status)) = status"

text \<open>
  The named routes of shortener/urls.py that take the keyword \<open>short_code\<close>, each with the
  text before and after the code (the app is mounted under \<open>/u/\<close>). No route is named
  \<open>url_password\<close>.
\<close>

definition shortener_urlpatterns :: "(string \<times> string \<times> string) list" where
  "shortener_urlpatterns =
     [(''url_analytics'', ''/u/analytics/'', ''/''),
      (''url_clicks'', ''/u/clicks/'', ''/''),
      (''export_clicks'', ''/u/clicks/'', ''/export/''),
      (''generate_qr_code'', ''/u/qrcode/'', ''/''),
      (''api_url_retrieve_update_destroy'', ''/u/api/urls/'', ''/''),
      (''api_url_clicks'', ''/u/api/urls/'', ''/clicks/'')]"

text \<open>\<open>redirect('shortener:<name>', short_code=code)\<close>: a 302 to the reversed route;
  \<open>NoReverseMatch\<close> when the namespace has no such route.\<close>

definition redirect_shortener :: "string \<Rightarrow> string \<Rightarrow> exn + response" where
  "redirect_shortener name code =
     (case map_of shortener_urlpatterns name of
        None \<Rightarrow> Inl NoReverseMatch
      | Some (before, after) \<Rightarrow> Inr (HttpResponseRedirect (before @ code @ after)))"

section \<open>Recording a click (shortener/models.py)\<close>

text \<open>\<open>Click.create_from_request\<close>: the row it inserts. The import of \<open>GeoIP2\<close> at the
  head of the function is taken to succeed; a lookup that fails leaves country and city
  empty.\<close>

definition create_from_request :: "URL \<Rightarrow> request \<Rightarrow> Click" where
  "create_from_request url request =
     (let ip = (case HTTP_X_FORWARDED_FOR request of
                  None \<Rightarrow> REMOTE_ADDR request
                | Some x \<Rightarrow> if x \<noteq> [] then Some (takeWhile (\<lambda>c. c \<noteq> CHR '','') x)
                            else REMOTE_ADDR request);
          location = (case geoip request of None \<Rightarrow> ([], []) | Some l \<Rightarrow> l);
          ua = (case HTTP_USER_AGENT request of None \<Rightarrow> [] | Some a \<Rightarrow> a);
          device = (if contains ''Mobile'' ua then ''Mobile''
                    else if contains ''Tablet'' ua \<or> contains ''iPad'' ua then ''Tablet''
                    else ''Desktop'')
      in \<lparr> url_id = pk url,
           clicked_at = now request,
           ip_address = ip,
           referrer = (case HTTP_REFERER request of None \<Rightarrow> [] | Some r \<Rightarrow> r),
           user_agent = ua,
           country = fst location,
           city = snd location,
           device_type = device,
           browser = [],
           os = [] \<rparr>)"

text \<open>\<open>URL.increment_click_count\<close>: the instance after the call, and the table after
  \<open>save(update_fields=['click_count', 'last_clicked'])\<close>.\<close>

definition increment_click_count :: "int \<Rightarrow> URL \<Rightarrow> URL list \<Rightarrow> URL \<times> URL list" where
  "increment_click_count t url us =
     (let url' = url\<lparr>click_count := click_count url + 1, last_clicked := Some t\<rparr>
      in (url',
          map (\<lambda>v. if pk v = pk url'
                   then v\<lparr>click_count := click_count url', last_clicked := last_clicked url'\<rparr>
                   else v) us))"

text \<open>\<open>url.save()\<close> of a fetched instance: its row is overwritten.\<close>

definition save :: "URL \<Rightarrow> URL list \<Rightarrow> URL list" where
  "save url us = map (\<lambda>v. if pk v = pk url then url else v) us"

text \<open>
  Reading \<open>url.is_one_time\<close>. The class \<open>URL\<close> declares no such field, property or
  method (the name occurs only as an extra form field of \<open>URLForm\<close>, outside its
  \<open>Meta.fields\<close>, and in the field lists of the serializers), so the read raises
  \<open>AttributeError\<close> on every instance the lookup returns.
\<close>

definition URL_is_one_time :: "URL \<Rightarrow> exn + bool" where
  "URL_is_one_time url = Inl AttributeError"

section \<open>The redirect view (shortener/views.py)\<close>

definition session_authenticated :: "request \<Rightarrow> URL \<Rightarrow> bool" where
  "session_authenticated request url =
     (case session request (pk url) of None \<Rightarrow> False | Some b \<Rightarrow> b)"

text \<open>
  \<open>redirect_short_url\<close>: what the view returns or raises, and the database as its writes
  leave it (each write is committed as it is issued). Only \<open>URL.DoesNotExist\<close> is caught.
\<close>

definition redirect_short_url :: "request \<Rightarrow> string \<Rightarrow> database \<Rightarrow> (exn + response) \<times> database" where
  "redirect_short_url request code db =
     (case objects_get (\<lambda>u. short_code u = code \<and> is_active u) (urls db) of
        Inl e \<Rightarrow> (Inl (if e = DoesNotExist then Http404 else e), db)
      | Inr url \<Rightarrow>
          if (case expires_at url of None \<Rightarrow> False | Some e \<Rightarrow> e < now request)
          then (Inr (Render ''shortener/url_expired.html'' 410), db)
          else if password url \<noteq> [] \<and> \<not> session_authenticated request url
          then (redirect_shortener ''url_password'' (short_code url), db)
          else
            (let click = create_from_request url request;
                 db1 = db\<lparr>clicks := clicks db @ [click]\<rparr>;
                 (url1, us) = increment_click_count (now request) url (urls db1);
                 db2 = db1\<lparr>urls := us\<rparr>
             in case URL_is_one_time url1 of
                  Inl e \<Rightarrow> (Inl e, db2)
                | Inr one_time \<Rightarrow>
                    (Inr (HttpResponsePermanentRedirect (original_url url1)),
                     if one_time then db2\<lparr>urls := save (url1\<lparr>is_active := False\<rparr>) (urls db2)\<rparr>
                     else db2)))"

section \<open>The password form (shortener/forms.py)\<close>

text \<open>
  \<open>PasswordForm.clean_password\<close>. The form holds \<open>self.url\<close> (\<open>None\<close> when the caller
  passed no link) and the submitted value as the field cleaned it. The stored password is
  the column \<open>URL.password\<close> itself: nothing is hashed on either side.
\<close>

definition clean_password :: "URL option \<Rightarrow> string \<Rightarrow> validation_error + string" where
  "clean_password url submitted =
     (case url of
        None \<Rightarrow> Inr submitted
      | Some u \<Rightarrow>
          if password u \<noteq> submitted
          then Inl (ValidationError ''Incorrect password. Please try again.'')
          else Inr submitted)"

section \<open>Generating a short code (shortener/forms.py, shortener/models.py)\<close>

text \<open>\<open>string.ascii_letters + string.digits\<close>\<close>

definition chars :: string where
  "chars = ''abcdefghijklmnopqrstuvwxyzABCDEFGHIJKLMNOPQRSTUVWXYZ0123456789''"

text \<open>
  The ambient random source is a stream \<open>rng\<close> of natural numbers, read from a position
  on. \<open>random.choices(chars, k=length)\<close> reads \<open>k\<close> numbers and picks one character of
  \<open>chars\<close> for each.
\<close>

definition choices :: "(nat \<Rightarrow> nat) \<Rightarrow> nat \<Rightarrow> nat \<Rightarrow> string" where
  "choices rng pos k = map (\<lambda>i. chars ! (rng (pos + i) mod length chars)) [0..<k]"

text \<open>The loop \<open>for _ in range(10)\<close> of \<open>URLForm._generate_short_code\<close>, with the number
  of rounds left: the first drawn code that no link has, or \<open>None\<close> when every round
  collided.\<close>

fun attempts :: "(nat \<Rightarrow> nat) \<Rightarrow> URL list \<Rightarrow> nat \<Rightarrow> nat \<Rightarrow> nat \<Rightarrow> string option" where
  "attempts rng us len pos 0 = None"
| "attempts rng us len pos (Suc n) =
     (let code = choices rng pos len
      in if \<not> short_code_exists us code then Some code
         else attempts rng us len (pos + len) n)"

text \<open>
  \<open>URLForm._generate_short_code(length)\<close>, which calls itself with \<open>length + 1\<close> after ten
  collisions. It has no other exit: there is no largest length and it raises nothing. The
  recursion ends because ten collisions at one length need a registered code of that length
  (Python's limit on the recursion depth is not modelled).
\<close>

function URLForm_generate_short_code :: "(nat \<Rightarrow> nat) \<Rightarrow> URL list \<Rightarrow> nat \<Rightarrow> nat \<Rightarrow> string" where
  "URLForm_generate_short_code rng us pos len =
     (case attempts rng us len pos 10 of
        Some code \<Rightarrow> code
      | None \<Rightarrow> URLForm_generate_short_code rng us (pos + 10 * len) (len + 1))"
  by pat_completeness auto
termination
proof (relation "measure (\<lambda>(rng, us, pos, len).
    Suc (Max (insert 0 ((length \<circ> short_code) ` set us))) - len)")
  show "wf (measure (\<lambda>(rng, us, pos, len).
    Suc (Max (insert 0 ((length \<circ> short_code) ` set us))) - len))" by simp
next
  fix rng :: "nat \<Rightarrow> nat" and us :: "URL list" and pos len :: nat
  assume "attempts rng us len pos 10 = None"
  moreover have "attempts rng us len pos (Suc n) = None \<Longrightarrow>
      short_code_exists us (choices rng pos len)" for n
    by (simp add: Let_def split: if_splits)
  from this [of 9] have "attempts rng us len pos 10 = None \<Longrightarrow>
      short_code_exists us (choices rng pos len)" by simp
  ultimately have "short_code_exists us (choices rng pos len)" by blast
  then obtain u where "u \<in> set us" "short_code u = choices rng pos len"
    by (auto simp: short_code_exists_def filter_empty_conv)
  then have "len \<in> insert 0 ((length \<circ> short_code) ` set us)"
    by (force simp: choices_def)
  then have "len \<le> Max (insert 0 ((length \<circ> short_code) ` set us))"
    by (intro Max_ge) auto
  then show "((rng, us, pos + 10 * len, len + 1), (rng, us, pos, len))
      \<in> measure (\<lambda>(rng, us, pos, len).
          Suc (Max (insert 0 ((length \<circ> short_code) ` set us))) - len)"
    by simp
qed

declare URLForm_generate_short_code.simps [simp del]

text \<open>The length of the longest short code of the table (0 when the table is empty).\<close>

fun longest_code :: "URL list \<Rightarrow> nat" where
  "longest_code [] = 0"
| "longest_code (u # us) = max (length (short_code u)) (longest_code us)"

text \<open>\<open>URL.generate_short_code(length)\<close>, the \<open>while True\<close> loop that \<open>URL.save\<close> falls back
  on: it draws at one length until a draw is free, and \<open>None\<close> stands for a loop that never
  ends.\<close>

partial_function (option) URL_generate_short_code ::
    "(nat \<Rightarrow> nat) \<Rightarrow> URL list \<Rightarrow> nat \<Rightarrow> nat \<Rightarrow> string option" where
  "URL_generate_short_code rng us pos len =
     (let code = choices rng pos len
      in if \<not> short_code_exists us code then Some code
         else URL_generate_short_code rng us (pos + len) len)"

section \<open>Validating a requested code (shortener/forms.py)\<close>

text \<open>
  \<open>URLForm.clean_custom_short_code\<close>, on the value the form field hands over (a string, at
  most 20 characters by the field's \<open>max_length\<close>): \<open>Inr None\<close> when no code was asked
  for, \<open>Inl\<close> a validation error, or \<open>Inr\<close> the accepted code. The function checks no
  length.
\<close>

definition clean_custom_short_code :: "URL list \<Rightarrow> string \<Rightarrow> validation_error + string option" where
  "clean_custom_short_code us custom =
     (if custom = [] then Inr None
      else if \<not> list_all (\<lambda>c. isalnum c \<or> c \<in> set ''-_'') custom
      then Inl (ValidationError
             ''Short code can only contain letters, numbers, hyphens, and underscores.'')
      else if short_code_exists us custom
      then Inl (ValidationError ''This short code is already in use. Please choose another one.'')
      else Inr (Some custom))"

section \<open>Parsing a user agent (shortener/utils.py)\<close>

text \<open>\<open>get_user_agent_info\<close>: the values of the keys \<open>device_type\<close>, \<open>browser\<close> and \<open>os\<close>
  of the dictionary it returns, in that order.\<close>

definition get_user_agent_info ::
    "string option \<Rightarrow> string option \<times> string option \<times> string option" where
  "get_user_agent_info user_agent_string =
     (case user_agent_string of
        None \<Rightarrow> (None, None, None)
      | Some s \<Rightarrow>
          if s = [] then (None, None, None)
          else
            (let ua = lower s;
                 device = (if contains ''mobile'' ua then ''mobile''
                           else if contains ''tablet'' ua \<or> contains ''ipad'' ua then ''tablet''
                           else ''desktop'');
                 browser_name =
                   (if contains ''chrome'' ua then Some ''Chrome''
                    else if contains ''firefox'' ua then Some ''Firefox''
                    else if contains ''safari'' ua then Some ''Safari''
                    else if contains ''edge'' ua then Some ''Edge''
                    else if contains ''opera'' ua then Some ''Opera''
                    else if contains ''msie'' ua \<or> contains ''trident'' ua
                    then Some ''Internet Explorer''
                    else None);
                 os_info =
                   (if contains ''windows'' ua then Some ''Windows''
                    else if contains ''mac os'' ua then Some ''macOS''
                    else if contains ''linux'' ua \<and> \<not> contains ''android'' ua then Some ''Linux''
                    else if contains ''android'' ua then Some ''Android''
                    else if contains ''iphone'' ua \<or> contains ''ipad'' ua \<or> contains ''ipod'' ua
                    then Some ''iOS''
                    else None)
             in (Some device, browser_name, os_info)))"

text \<open>
  The specification's reading of the parser: an ordered table of rules, each a list of
  needles of which one must occur, a list of needles that must not occur, and the value the
  rule gives; the first rule that matches wins, and no match gives nothing.
\<close>

type_synonym rule = "string list \<times> string list \<times> string"

definition rule_matches :: "rule \<Rightarrow> string \<Rightarrow> bool" where
  "rule_matches r ua =
     (case r of (any_of, none_of, label) \<Rightarrow>
        list_ex (\<lambda>n. contains n ua) any_of \<and> \<not> list_ex (\<lambda>n. contains n ua) none_of)"

fun first_match :: "rule list \<Rightarrow> string \<Rightarrow> string option" where
  "first_match [] ua = None"
| "first_match (r # rs) ua =
     (if rule_matches r ua then Some (snd (snd r)) else first_match rs ua)"

text \<open>The tables read off \<open>get_user_agent_info\<close>, and the one of
  \<open>Click.create_from_request\<close>, which matches on the raw string.\<close>

definition device_rules :: "rule list" where
  "device_rules = [([''mobile''], [], ''mobile''), ([''tablet'', ''ipad''], [], ''tablet'')]"

definition browser_rules :: "rule list" where
  "browser_rules =
     [([''chrome''], [], ''Chrome''), ([''firefox''], [], ''Firefox''),
      ([''safari''], [], ''Safari''), ([''edge''], [], ''Edge''), ([''opera''], [], ''Opera''),
      ([''msie'', ''trident''], [], ''Internet Explorer'')]"

definition os_rules :: "rule list" where
  "os_rules =
     [([''windows''], [], ''Windows''), ([''mac os''], [], ''macOS''),
      ([''linux''], [''android''], ''Linux''), ([''android''], [], ''Android''),
      ([''iphone'', ''ipad'', ''ipod''], [], ''iOS'')]"

definition click_device_rules :: "rule list" where
  "click_device_rules = [([''Mobile''], [], ''Mobile''), ([''Tablet'', ''iPad''], [], ''Tablet'')]"

section \<open>Statistics of a link (shortener/api/views.py)\<close>

text \<open>The numbers \<open>url_stats\<close> puts in its response (the serialised link is left out).\<close>

record stats =
  total_clicks :: nat
  unique_visitors :: nat
  clicks_by_date :: "(int \<times> nat) list"
  top_referrers :: "(string \<times> nat) list"
  top_user_agents :: "(string \<times> nat) list"

text \<open>\<open>.values(f).annotate(count=Count('id'))\<close>: one group per value, with the number of
  rows that hold it.\<close>

definition values_count :: "'a list \<Rightarrow> ('a \<times> nat) list" where
  "values_count vs = map (\<lambda>v. (v, length (filter (\<lambda>w. w = v) vs))) (remdups vs)"

text \<open>
  \<open>.order_by('-count')\<close>. The query names no second sort key, so the order of groups with
  equal counts is the database's: the groups reach the sort in the order \<open>engine\<close> hands
  them over, and the sort keeps that order among equal counts.
\<close>

definition order_by_count_desc :: "('a \<times> nat) list \<Rightarrow> ('a \<times> nat) list" where
  "order_by_count_desc gs = sort_key (\<lambda>g. - int (snd g)) gs"

text \<open>The queries for \<open>top_referrers\<close> and \<open>top_user_agents\<close>: empty values excluded,
  grouped, ordered by count, cut at ten.\<close>

definition top_values ::
    "((string \<times> nat) list \<Rightarrow> (string \<times> nat) list) \<Rightarrow> string list \<Rightarrow> (string \<times> nat) list" where
  "top_values engine vs =
     take 10 (order_by_count_desc (engine (values_count (filter (\<lambda>v. v \<noteq> []) vs))))"

text \<open>
  \<open>url_stats\<close> for the signed-in user \<open>user\<close>. \<open>date_of\<close> gives the calendar date of a
  time in the configured time zone (\<open>clicked_at__date\<close>).
\<close>

definition url_stats ::
    "(int \<Rightarrow> int) \<Rightarrow> ((string \<times> nat) list \<Rightarrow> (string \<times> nat) list) \<Rightarrow> nat \<Rightarrow> string \<Rightarrow> database
      \<Rightarrow> exn + stats" where
  "url_stats date_of engine user code db =
     (case objects_get (\<lambda>u. short_code u = code \<and> created_by u = Some user) (urls db) of
        Inl e \<Rightarrow> Inl (if e = DoesNotExist then Http404 else e)
      | Inr url \<Rightarrow>
          (let rows = filter (\<lambda>c. url_id c = pk url) (clicks db)
           in Inr \<lparr> total_clicks = length rows,
                    unique_visitors = length (remdups (map ip_address rows)),
                    clicks_by_date =
                      map (\<lambda>d. (d, length (filter (\<lambda>c. date_of (clicked_at c) = d) rows)))
                        (sort (remdups (map (\<lambda>c. date_of (clicked_at c)) rows))),
                    top_referrers = top_values engine (map referrer rows),
                    top_user_agents = top_values engine (map user_agent rows) \<rparr>))"

text \<open>
  The specification's reading of the top lists: the \<open>n\<close> most frequent values, by descending
  count, tied values in the order in which they were first seen.
\<close>

definition first_seen :: "'a list \<Rightarrow> 'a list" where
  "first_seen vs = rev (remdups (rev vs))"

definition top_n_first_seen :: "nat \<Rightarrow> 'a list \<Rightarrow> ('a \<times> nat) list" where
  "top_n_first_seen n vs =
     take n (sort_key (\<lambda>g. - int (snd g))
       (map (\<lambda>v. (v, length (filter (\<lambda>w. w = v) vs))) (first_seen vs)))"

text \<open>
  What holds of a top list whatever the database's order: at most ten entries, by descending
  count, one per value, each a non-empty value with the number of rows that hold it, and
  every non-empty value left out is no more frequent than any entry of a full list.
\<close>

definition is_top_values :: "string list \<Rightarrow> (string \<times> nat) list \<Rightarrow> bool" where
  "is_top_values vs result =
     (length result \<le> 10
      \<and> sorted_wrt (\<lambda>g h. snd h \<le> snd g) result
      \<and> distinct (map fst result)
      \<and> (\<forall>g\<in>set result. fst g \<noteq> [] \<and> fst g \<in> set vs
            \<and> snd g = length (filter (\<lambda>w. w = fst g) vs))
      \<and> (\<forall>v\<in>set vs. v \<noteq> [] \<longrightarrow> v \<in> fst ` set result
            \<or> (length result = 10
                \<and> (\<forall>g\<in>set result. length (filter (\<lambda>w. w = v) vs) \<le> snd g))))"

section \<open>Sample data\<close>

text \<open>Scenario A of the specification: the link \<open>abc123\<close> to \<open>https://example.com\<close>,
  freshly created, and a plain request for it.\<close>

definition link_A :: URL where
  "link_A = \<lparr> pk = 1, original_url = ''https://example.com'', short_code = ''abc123'',
      created_at = 0, expires_at = None, is_custom = True, created_by = Some 1,
      is_active = True, password = [], click_count = 0, last_clicked = None \<rparr>"

definition request_A :: request where
  "request_A = \<lparr> HTTP_X_FORWARDED_FOR = None, REMOTE_ADDR = Some ''10.0.0.1'',
      HTTP_USER_AGENT = Some ''curl/8.0'', HTTP_REFERER = None, session = (\<lambda>k. None),
      now = 100, geoip = None \<rparr>"

definition db_A :: database where
  "db_A = \<lparr> urls = [link_A], clicks = [] \<rparr>"

text \<open>The same link deactivated; with an expiry date in the past; both; and protected by
  a password.\<close>

definition db_inactive :: database where
  "db_inactive = \<lparr> urls = [link_A\<lparr>is_active := False\<rparr>], clicks = [] \<rparr>"

definition db_expired :: database where
  "db_expired = \<lparr> urls = [link_A\<lparr>expires_at := Some 50\<rparr>], clicks = [] \<rparr>"

definition db_expired_inactive :: database where
  "db_expired_inactive =
     \<lparr> urls = [link_A\<lparr>expires_at := Some 50, is_active := False\<rparr>], clicks = [] \<rparr>"

definition db_protected :: database where
  "db_protected = \<lparr> urls = [link_A\<lparr>password := ''secret''\<rparr>], clicks = [] \<rparr>"

text \<open>A table holding the codes \<open>aaaaaa\<close> up to \<open>aaaaaaaaaa\<close> (lengths 6 to 10).\<close>

definition registry_a :: "URL list" where
  "registry_a =
     [link_A\<lparr>pk := 6, short_code := ''aaaaaa''\<rparr>,
      link_A\<lparr>pk := 7, short_code := ''aaaaaaa''\<rparr>,
      link_A\<lparr>pk := 8, short_code := ''aaaaaaaa''\<rparr>,
      link_A\<lparr>pk := 9, short_code := ''aaaaaaaaa''\<rparr>,
      link_A\<lparr>pk := 10, short_code := ''aaaaaaaaaa''\<rparr>]"

text \<open>A request from a mobile Chrome on Windows.\<close>

definition request_chrome :: request where
  "request_chrome = request_A\<lparr>HTTP_USER_AGENT := Some ''Chrome/120 (Windows NT; Mobile)''\<rparr>"

text \<open>Dates in UTC, and the link of Scenario A with three clicks on two days: two
  referrers once each, one click without referrer, two clicks without address.\<close>

definition day :: "int \<Rightarrow> int" where
  "day t = t div 86400"

definition click_1 :: Click where
  "click_1 = \<lparr> url_id = 1, clicked_at = 100, ip_address = Some ''10.0.0.1'',
      referrer = ''https://a.test/'', user_agent = ''curl/8.0'', country = [], city = [],
      device_type = ''Desktop'', browser = [], os = [] \<rparr>"

definition db_clicks :: database where
  "db_clicks = \<lparr> urls = [link_A\<lparr>click_count := 3\<rparr>],
     clicks = [click_1,
               click_1\<lparr>clicked_at := 90000, ip_address := None, referrer := ''https://b.test/''\<rparr>,
               click_1\<lparr>clicked_at := 90100, ip_address := None, referrer := []\<rparr>] \<rparr>"

section \<open>Looking a link up\<close>

lemma filter_key_empty:
  "c \<notin> f ` set xs \<Longrightarrow> filter (\<lambda>x. f x = c \<and> P x) xs = []"
  by (induction xs) auto

lemma filter_distinct_key:
  "distinct (map f xs) \<Longrightarrow>
     filter (\<lambda>x. f x = c \<and> P x) xs = [] \<or> (\<exists>x. filter (\<lambda>x. f x = c \<and> P x) xs = [x])"
proof (induction xs)
  case Nil
  then show ?case by simp
next
  case (Cons a xs)
  show ?case
  proof (cases "f a = c")
    case True
    with Cons.prems have "c \<notin> f ` set xs" by auto
    then have "filter (\<lambda>x. f x = c \<and> P x) xs = []" by (rule filter_key_empty)
    then show ?thesis by simp
  next
    case False
    with Cons show ?thesis by simp
  qed
qed

text \<open>With \<open>short_code\<close> unique (the column is declared \<open>unique=True\<close>), the lookup of the
  view finds the active link of that code, or none.\<close>

lemma objects_get_found:
  assumes "distinct (map short_code us)" "u \<in> set us" "short_code u = code" "is_active u"
  shows "objects_get (\<lambda>v. short_code v = code \<and> is_active v) us = Inr u"
proof -
  let ?F = "filter (\<lambda>v. short_code v = code \<and> is_active v) us"
  have in_F: "u \<in> set ?F" using assms by simp
  from filter_distinct_key [OF assms(1), of code is_active]
  consider "?F = []" | x where "?F = [x]" by blast
  then show ?thesis
  proof cases
    case 1
    with in_F show ?thesis by simp
  next
    case 2
    with in_F have "x = u" by simp
    with 2 show ?thesis by (simp add: objects_get_def)
  qed
qed

lemma objects_get_none:
  assumes "\<not> (\<exists>u\<in>set us. short_code u = code \<and> is_active u)"
  shows "objects_get (\<lambda>v. short_code v = code \<and> is_active v) us = Inl DoesNotExist"
proof -
  have "filter (\<lambda>v. short_code v = code \<and> is_active v) us = []"
    using assms by (auto simp: filter_empty_conv)
  then show ?thesis by (simp add: objects_get_def)
qed

lemma unique_code:
  assumes "distinct (map short_code us)" "u \<in> set us" "v \<in> set us" "short_code v = short_code u"
  shows "v = u"
  using assms by (auto simp: distinct_map dest: inj_onD)

text \<open>The view as it stands never answers with the permanent redirect: the read of
  \<open>is_one_time\<close> stands between the bookkeeping and the \<open>return\<close>.\<close>

lemma redirect_never_permanent:
  "fst (redirect_short_url request code db) \<noteq> Inr (HttpResponsePermanentRedirect t)"
  by (auto simp: redirect_short_url_def URL_is_one_time_def redirect_shortener_def
        shortener_urlpatterns_def Let_def
      split: sum.splits if_splits prod.splits option.splits)

text \<open>The definitions that evaluating the view unfolds.\<close>

lemmas view_defs = redirect_short_url_def objects_get_def create_from_request_def
  increment_click_count_def URL_is_one_time_def session_authenticated_def
  redirect_shortener_def shortener_urlpatterns_def save_def

section \<open>Round trip\<close>

text \<open>
  C1 (what the code does at Scenario A). The first request for the fresh link \<open>abc123\<close>
  inserts the click, raises \<open>click_count\<close> to 1 and sets \<open>last_clicked\<close>, and then
  raises \<open>AttributeError\<close> at the read of \<open>url.is_one_time\<close>: the client is answered
  with 500 and not with the 301 to \<open>https://example.com\<close>.
\<close>

theorem scenario_A_raises_AttributeError:
  "redirect_short_url request_A ''abc123'' db_A =
     (Inl AttributeError,
      \<lparr> urls = [link_A\<lparr>click_count := 1, last_clicked := Some 100\<rparr>],
        clicks = [\<lparr> url_id = 1, clicked_at = 100, ip_address = Some ''10.0.0.1'',
                    referrer = [], user_agent = ''curl/8.0'', country = [], city = [],
                    device_type = ''Desktop'', browser = [], os = [] \<rparr>] \<rparr>)
   \<and> status_code (fst (redirect_short_url request_A ''abc123'' db_A)) = 500"
  by (simp add: link_A_def request_A_def db_A_def view_defs Let_def)

section \<open>One-time links\<close>

text \<open>
  C2 (what the code does on two requests in a row). Each of them records a click and
  raises \<open>AttributeError\<close>; the link is still active afterwards, with \<open>click_count\<close> 2
  and two click rows. The branch that deactivates a one-time link is never reached.
\<close>

theorem one_time_link_two_requests:
  "fst (redirect_short_url request_A ''abc123'' db_A) = Inl AttributeError
   \<and> fst (redirect_short_url request_A ''abc123'' (snd (redirect_short_url request_A ''abc123'' db_A)))
       = Inl AttributeError
   \<and> map is_active (urls (snd (redirect_short_url request_A ''abc123''
        (snd (redirect_short_url request_A ''abc123'' db_A))))) = [True]
   \<and> map click_count (urls (snd (redirect_short_url request_A ''abc123''
        (snd (redirect_short_url request_A ''abc123'' db_A))))) = [2]
   \<and> length (clicks (snd (redirect_short_url request_A ''abc123''
        (snd (redirect_short_url request_A ''abc123'' db_A))))) = 2"
  by (simp add: link_A_def request_A_def db_A_def view_defs Let_def)

section \<open>Status codes of the redirect view\<close>

text \<open>
  C3, counterexample. A link with the code \<open>abc123\<close> exists and is inactive; the request
  for it is answered with 404, the answer for a code that does not exist, and not with 410.
\<close>

theorem inactive_link_is_404:
  "short_code_exists (urls db_inactive) ''abc123''
   \<and> fst (redirect_short_url request_A ''abc123'' db_inactive) = Inl Http404
   \<and> status_code (fst (redirect_short_url request_A ''abc123'' db_inactive)) = 404
   \<and> status_code (fst (redirect_short_url request_A ''abc123'' db_inactive)) \<noteq> 410"
  by (simp add: link_A_def request_A_def db_inactive_def view_defs short_code_exists_def)

text \<open>
  C3, as amended. With short codes unique, a request for a code is answered with 404
  exactly when no active link has that code (there is none, or it is inactive), and with 410
  exactly when the active link of that code has an \<open>expires_at\<close> strictly before now.
\<close>

theorem redirect_status_404_410:
  assumes "distinct (map short_code (urls db))"
  shows "(status_code (fst (redirect_short_url request code db)) = 404)
           = (\<not> (\<exists>u\<in>set (urls db). short_code u = code \<and> is_active u))
       \<and> (status_code (fst (redirect_short_url request code db)) = 410)
           = (\<exists>u\<in>set (urls db). short_code u = code \<and> is_active u \<and>
                (\<exists>e. expires_at u = Some e \<and> e < now request))"
proof (cases "\<exists>u\<in>set (urls db). short_code u = code \<and> is_active u")
  case False
  then show ?thesis
    by (auto simp: redirect_short_url_def objects_get_none)
next
  case True
  then obtain u where u: "u \<in> set (urls db)" "short_code u = code" "is_active u" by blast
  have g: "objects_get (\<lambda>v. short_code v = code \<and> is_active v) (urls db) = Inr u"
    using objects_get_found [OF assms u] .
  have uniq: "v = u" if "v \<in> set (urls db)" "short_code v = code" for v
    using unique_code [OF assms u(1) that(1)] that(2) u(2) by simp
  have s404: "status_code (fst (redirect_short_url request code db)) \<noteq> 404"
    using g
    by (auto simp: redirect_short_url_def URL_is_one_time_def redirect_shortener_def
          shortener_urlpatterns_def Let_def split: prod.splits option.splits)
  show ?thesis
  proof (cases "\<exists>e. expires_at u = Some e \<and> e < now request")
    case True
    then have "status_code (fst (redirect_short_url request code db)) = 410"
      using g by (auto simp: redirect_short_url_def)
    with True u s404 show ?thesis by auto
  next
    case False
    then have "status_code (fst (redirect_short_url request code db)) \<noteq> 410"
      using g
      by (auto simp: redirect_short_url_def URL_is_one_time_def redirect_shortener_def
            shortener_urlpatterns_def Let_def split: prod.splits option.splits)
    moreover have "\<not> (\<exists>u\<in>set (urls db). short_code u = code \<and> is_active u \<and>
        (\<exists>e. expires_at u = Some e \<and> e < now request))"
      using False uniq by blast
    ultimately show ?thesis using s404 u by auto
  qed
qed

text \<open>C3, witness: the inactive link gives 404, the expired active link gives 410.\<close>

theorem redirect_status_404_410_witness:
  "distinct (map short_code (urls db_inactive))
   \<and> status_code (fst (redirect_short_url request_A ''abc123'' db_inactive)) = 404
   \<and> distinct (map short_code (urls db_expired))
   \<and> status_code (fst (redirect_short_url request_A ''abc123'' db_expired)) = 410"
proof -
  have d1: "distinct (map short_code (urls db_inactive))" by (simp add: link_A_def db_inactive_def)
  have d2: "distinct (map short_code (urls db_expired))" by (simp add: link_A_def db_expired_def)
  have "status_code (fst (redirect_short_url request_A ''abc123'' db_inactive)) = 404"
    using redirect_status_404_410 [OF d1, of request_A "''abc123''"] by (simp add: link_A_def request_A_def db_inactive_def)
  moreover have "status_code (fst (redirect_short_url request_A ''abc123'' db_expired)) = 410"
    using redirect_status_404_410 [OF d2, of request_A "''abc123''"] by (simp add: link_A_def request_A_def db_expired_def)
  ultimately show ?thesis using d1 d2 by simp
qed

section \<open>Expiry\<close>

text \<open>
  C4, counterexample. The link expired at 50, the request comes at 100, and the link is
  inactive: the answer is the 404 of a missing link, not the 410 of an expired one.
\<close>

theorem expired_inactive_link_is_404:
  "map expires_at (urls db_expired_inactive) = [Some 50] \<and> (50::int) < now request_A
   \<and> is_expired (now request_A) (hd (urls db_expired_inactive))
   \<and> fst (redirect_short_url request_A ''abc123'' db_expired_inactive) = Inl Http404
   \<and> status_code (fst (redirect_short_url request_A ''abc123'' db_expired_inactive)) \<noteq> 410"
  by (simp add: link_A_def request_A_def db_expired_inactive_def view_defs is_expired_def)

text \<open>
  C4, as amended. For a link whose \<open>expires_at\<close> is set and strictly in the past
  (\<open>URL.is_expired\<close> holds), the view answers with the expired page and status 410 when the
  link is active, and with 404 when it is inactive; in both cases the database is left as it
  was.
\<close>

theorem expired_link_outcome:
  assumes "distinct (map short_code (urls db))" "u \<in> set (urls db)" "short_code u = code"
    and "expires_at u = Some e" "e < now request"
  shows "is_expired (now request) u
       \<and> redirect_short_url request code db =
           (if is_active u then Inr (Render ''shortener/url_expired.html'' 410) else Inl Http404, db)"
proof (cases "is_active u")
  case True
  have "objects_get (\<lambda>v. short_code v = code \<and> is_active v) (urls db) = Inr u"
    using objects_get_found [OF assms(1,2,3) True] .
  then show ?thesis using assms True by (simp add: redirect_short_url_def is_expired_def)
next
  case False
  have "\<not> (\<exists>v\<in>set (urls db). short_code v = code \<and> is_active v)"
  proof
    assume "\<exists>v\<in>set (urls db). short_code v = code \<and> is_active v"
    then obtain v where v: "v \<in> set (urls db)" "short_code v = code" "is_active v" by blast
    then have "v = u" using unique_code [OF assms(1,2) v(1)] assms(3) by simp
    with v False show False by simp
  qed
  then have "objects_get (\<lambda>v. short_code v = code \<and> is_active v) (urls db) = Inl DoesNotExist"
    by (rule objects_get_none)
  then show ?thesis using assms False by (simp add: redirect_short_url_def is_expired_def)
qed

text \<open>C4, witness: the expired link, active and inactive.\<close>

theorem expired_link_outcome_witness:
  "redirect_short_url request_A ''abc123'' db_expired
     = (Inr (Render ''shortener/url_expired.html'' 410), db_expired)
   \<and> redirect_short_url request_A ''abc123'' db_expired_inactive
     = (Inl Http404, db_expired_inactive)"
proof -
  have a: "redirect_short_url request_A ''abc123'' db_expired
     = (Inr (Render ''shortener/url_expired.html'' 410), db_expired)"
    using expired_link_outcome [of db_expired "link_A\<lparr>expires_at := Some 50\<rparr>" "''abc123''" 50 request_A]
    by (simp add: link_A_def request_A_def db_expired_def)
  have b: "redirect_short_url request_A ''abc123'' db_expired_inactive
     = (Inl Http404, db_expired_inactive)"
    using expired_link_outcome [of db_expired_inactive
        "link_A\<lparr>expires_at := Some 50, is_active := False\<rparr>" "''abc123''" 50 request_A]
    by (simp add: link_A_def request_A_def db_expired_inactive_def)
  from a b show ?thesis by simp
qed

section \<open>The password gate\<close>

text \<open>
  C7. For a password-protected link and a request whose session holds no marker for it,
  the view leaves the database as it was (no click row, \<open>click_count\<close> and
  \<open>last_clicked\<close> unchanged) and never answers with the redirect to the target: for an
  active link that has not expired the answer is the redirect to the route \<open>url_password\<close>
  for the short code, in which the target does not occur. A submitted password that differs from the stored one is rejected by
  \<open>PasswordForm.clean_password\<close>, a function of the form's data alone.
\<close>

theorem password_gate_no_side_effect:
  assumes "distinct (map short_code (urls db))" "u \<in> set (urls db)" "short_code u = code"
    and "password u \<noteq> []" "\<not> session_authenticated request u"
  shows "snd (redirect_short_url request code db) = db
       \<and> (\<forall>t. fst (redirect_short_url request code db) \<noteq> Inr (HttpResponsePermanentRedirect t))
       \<and> (is_active u \<and> \<not> is_expired (now request) u \<longrightarrow>
            fst (redirect_short_url request code db) = redirect_shortener ''url_password'' code)
       \<and> (\<forall>submitted. submitted \<noteq> password u \<longrightarrow>
            clean_password (Some u) submitted
              = Inl (ValidationError ''Incorrect password. Please try again.''))"
proof -
  have "snd (redirect_short_url request code db) = db"
  proof (cases "is_active u")
    case True
    have "objects_get (\<lambda>v. short_code v = code \<and> is_active v) (urls db) = Inr u"
      using objects_get_found [OF assms(1,2,3) True] .
    then show ?thesis using assms(4,5) by (simp add: redirect_short_url_def)
  next
    case False
    have "\<not> (\<exists>v\<in>set (urls db). short_code v = code \<and> is_active v)"
    proof
      assume "\<exists>v\<in>set (urls db). short_code v = code \<and> is_active v"
      then obtain v where v: "v \<in> set (urls db)" "short_code v = code" "is_active v" by blast
      then have "v = u" using unique_code [OF assms(1,2) v(1)] assms(3) by simp
      with v False show False by simp
    qed
    then have "objects_get (\<lambda>v. short_code v = code \<and> is_active v) (urls db) = Inl DoesNotExist"
      by (rule objects_get_none)
    then show ?thesis by (simp add: redirect_short_url_def)
  qed
  moreover have "\<forall>t. fst (redirect_short_url request code db) \<noteq> Inr (HttpResponsePermanentRedirect t)"
    by (simp add: redirect_never_permanent)
  moreover have "is_active u \<and> \<not> is_expired (now request) u \<longrightarrow>
      fst (redirect_short_url request code db) = redirect_shortener ''url_password'' code"
  proof
    assume a: "is_active u \<and> \<not> is_expired (now request) u"
    then have "objects_get (\<lambda>v. short_code v = code \<and> is_active v) (urls db) = Inr u"
      using objects_get_found [OF assms(1,2,3)] by simp
    then show "fst (redirect_short_url request code db) = redirect_shortener ''url_password'' code"
      using a assms(3,4,5)
      by (auto simp: redirect_short_url_def is_expired_def split: option.splits)
  qed
  moreover have "\<forall>submitted. submitted \<noteq> password u \<longrightarrow>
            clean_password (Some u) submitted
              = Inl (ValidationError ''Incorrect password. Please try again.'')"
    by (auto simp: clean_password_def)
  ultimately show ?thesis by simp
qed

text \<open>C7, witness: the protected link \<open>abc123\<close>, no marker in the session, and the
  wrong password \<open>guess\<close>.\<close>

theorem password_gate_no_side_effect_witness:
  "snd (redirect_short_url request_A ''abc123'' db_protected) = db_protected
   \<and> fst (redirect_short_url request_A ''abc123'' db_protected) = Inl NoReverseMatch
   \<and> clean_password (Some (link_A\<lparr>password := ''secret''\<rparr>)) ''guess''
       = Inl (ValidationError ''Incorrect password. Please try again.'')"
proof -
  have "snd (redirect_short_url request_A ''abc123'' db_protected) = db_protected
     \<and> clean_password (Some (link_A\<lparr>password := ''secret''\<rparr>)) ''guess''
       = Inl (ValidationError ''Incorrect password. Please try again.'')"
    using password_gate_no_side_effect [of db_protected "link_A\<lparr>password := ''secret''\<rparr>"
        "''abc123''" request_A]
    by (simp add: link_A_def request_A_def db_protected_def session_authenticated_def)
  moreover have "fst (redirect_short_url request_A ''abc123'' db_protected) = Inl NoReverseMatch"
    by (simp add: link_A_def request_A_def db_protected_def view_defs)
  ultimately show ?thesis by simp
qed

section \<open>Plaintext password equality\<close>

text \<open>
  C10. For a form bound to a link, verification succeeds exactly when the submitted string
  equals the stored \<open>password\<close> column, character for character: equal strings always
  pass and return the string, distinct strings always fail with the validation error. The
  comparison is on the stored plaintext; no hash is computed.
\<close>

theorem clean_password_plaintext_equality:
  "(clean_password (Some u) submitted = Inr submitted) = (password u = submitted)
   \<and> (clean_password (Some u) submitted
        = Inl (ValidationError ''Incorrect password. Please try again.''))
       = (password u \<noteq> submitted)"
  by (simp add: clean_password_def)

section \<open>Short-code generation\<close>

lemma length_choices: "length (choices rng pos k) = k"
  by (simp add: choices_def)

lemma chars_length: "length chars = 62"
  by (simp add: chars_def)

lemma set_choices: "set (choices rng pos k) \<subseteq> set chars"
  by (auto simp: choices_def chars_length intro!: nth_mem)

lemma longest_code_ge: "u \<in> set us \<Longrightarrow> length (short_code u) \<le> longest_code us"
  by (induction us) auto

lemma short_code_exists_iff: "short_code_exists us c = (\<exists>u\<in>set us. short_code u = c)"
  by (auto simp: short_code_exists_def filter_empty_conv)

lemma attempts_None:
  "attempts rng us len pos n = None \<Longrightarrow> i < n \<Longrightarrow>
     short_code_exists us (choices rng (pos + i * len) len)"
proof (induction n arbitrary: pos i)
  case 0
  then show ?case by simp
next
  case (Suc n)
  from Suc.prems(1) have here: "short_code_exists us (choices rng pos len)"
    and rest: "attempts rng us len (pos + len) n = None"
    by (simp_all add: Let_def split: if_splits)
  show ?case
  proof (cases i)
    case 0
    with here show ?thesis by simp
  next
    case (Suc j)
    with Suc.prems(2) have "j < n" by simp
    from Suc.IH [OF rest this] Suc show ?thesis by (simp add: add.assoc)
  qed
qed

lemma attempts_Some:
  "attempts rng us len pos n = Some c \<Longrightarrow>
     \<not> short_code_exists us c \<and> (\<exists>j<n. c = choices rng (pos + j * len) len)"
proof (induction n arbitrary: pos)
  case 0
  then show ?case by simp
next
  case (Suc n)
  show ?case
  proof (cases "short_code_exists us (choices rng pos len)")
    case True
    with Suc.prems have "attempts rng us len (pos + len) n = Some c" by (simp add: Let_def)
    from Suc.IH [OF this] obtain j where "j < n" "c = choices rng (pos + len + j * len) len"
      and fresh: "\<not> short_code_exists us c" by blast
    then have "Suc j < Suc n" "c = choices rng (pos + Suc j * len) len"
      by (simp_all add: add.assoc)
    with fresh show ?thesis by blast
  next
    case False
    with Suc.prems have "c = choices rng pos len" by (simp add: Let_def)
    with False have "\<not> short_code_exists us c" "c = choices rng (pos + 0 * len) len" by simp_all
    then show ?thesis by blast
  qed
qed

text \<open>
  C5, as amended. When no code is requested, \<open>URLForm._generate_short_code\<close> draws codes
  over the 62 alphanumeric characters starting at the given length (6 by default), makes at
  most ten draws per length and goes on to the next length after ten collisions, with no
  upper bound on the length and no failure: on every table and every random stream it
  returns a code that no link has, at least as long as the starting length and at most one
  longer than the longest registered code; every length it passed over is the length of a
  registered code; and the code returned is one of the ten draws made at its length, after
  exactly ten draws at each shorter length.
\<close>

theorem URLForm_generate_short_code_unbounded_escalation:
  "\<not> short_code_exists us (URLForm_generate_short_code rng us pos len)
   \<and> set (URLForm_generate_short_code rng us pos len) \<subseteq> set chars
   \<and> len \<le> length (URLForm_generate_short_code rng us pos len)
   \<and> length (URLForm_generate_short_code rng us pos len) \<le> max len (Suc (longest_code us))
   \<and> (\<forall>l. len \<le> l \<and> l < length (URLForm_generate_short_code rng us pos len)
          \<longrightarrow> (\<exists>u\<in>set us. length (short_code u) = l))
   \<and> (\<exists>j<10. URLForm_generate_short_code rng us pos len
          = choices rng
              (pos + 10 * (\<Sum>l = len..<length (URLForm_generate_short_code rng us pos len). l)
                 + j * length (URLForm_generate_short_code rng us pos len))
              (length (URLForm_generate_short_code rng us pos len)))"
proof (induction rng us pos len rule: URLForm_generate_short_code.induct)
  case (1 rng us pos len)
  show ?case
  proof (cases "attempts rng us len pos 10")
    case None
    define c where "c = URLForm_generate_short_code rng us (pos + 10 * len) (len + 1)"
    have eq: "URLForm_generate_short_code rng us pos len = c"
      using None unfolding c_def by (subst URLForm_generate_short_code.simps) simp
    from attempts_None [OF None, of 0] obtain u where u: "u \<in> set us" "length (short_code u) = len"
      by (auto simp: short_code_exists_iff length_choices)
    from u have le: "len \<le> longest_code us" using longest_code_ge by blast
    note IH = 1 [OF None, folded c_def]
    from IH have len_c: "len + 1 \<le> length c" by simp
    have step: "\<exists>u\<in>set us. length (short_code u) = l" if "len \<le> l" "l < length c" for l
    proof (cases "l = len")
      case True
      with u show ?thesis by blast
    next
      case False
      with that have "len + 1 \<le> l" by simp
      with IH that(2) show ?thesis by blast
    qed
    have sum: "(\<Sum>l = len..<length c. l) = len + (\<Sum>l = len + 1..<length c. l)"
      using len_c by (simp add: sum.atLeast_Suc_lessThan)
    from IH obtain j where j: "j < 10"
      "c = choices rng (pos + 10 * len + 10 * (\<Sum>l = len + 1..<length c. l) + j * length c) (length c)"
      by blast
    have pos_eq: "pos + 10 * len + 10 * (\<Sum>l = len + 1..<length c. l) + j * length c
        = pos + 10 * (\<Sum>l = len..<length c. l) + j * length c"
      unfolding sum by (simp add: algebra_simps)
    from j have draw: "\<exists>j<10. c = choices rng (pos + 10 * (\<Sum>l = len..<length c. l) + j * length c) (length c)"
      unfolding pos_eq by blast
    from IH le len_c have a: "\<not> short_code_exists us c" "set c \<subseteq> set chars" "len \<le> length c"
      "length c \<le> max len (Suc (longest_code us))" by auto
    from a step draw show ?thesis unfolding eq by blast
  next
    case (Some c)
    have eq: "URLForm_generate_short_code rng us pos len = c"
      using Some by (subst URLForm_generate_short_code.simps) simp
    from attempts_Some [OF Some] obtain j where j: "j < 10" "c = choices rng (pos + j * len) len"
      and fresh: "\<not> short_code_exists us c" by blast
    from j have lc: "length c = len" by (simp add: length_choices)
    from j have sub: "set c \<subseteq> set chars" using set_choices by simp
    from j lc have "c = choices rng (pos + 10 * (\<Sum>l = len..<length c. l) + j * length c) (length c)"
      by simp
    with j(1) have draw: "\<exists>j<10. c = choices rng (pos + 10 * (\<Sum>l = len..<length c. l) + j * length c) (length c)"
      by blast
    from fresh lc sub draw show ?thesis unfolding eq by auto
  qed
qed

text \<open>On the table \<open>registry_a\<close>, with a random source that always picks \<open>a\<close>, fifty draws
  collide and the code returned has eleven characters.\<close>

lemma registry_a_result:
  "URLForm_generate_short_code (\<lambda>n. 0) registry_a 0 6 = ''aaaaaaaaaaa''"
  by code_simp

text \<open>C5, counterexample: a generated code of length 11, where the claim has the generator
  stop at length 10 with \<open>AllocationExhausted\<close>.\<close>

theorem generated_code_of_length_11:
  "URLForm_generate_short_code (\<lambda>n. 0) registry_a 0 6 = ''aaaaaaaaaaa''
   \<and> length (URLForm_generate_short_code (\<lambda>n. 0) registry_a 0 6) = 11"
  unfolding registry_a_result by simp

text \<open>C5, witness: the same table and random source.\<close>

theorem URLForm_generate_short_code_unbounded_escalation_witness:
  "\<not> short_code_exists registry_a (URLForm_generate_short_code (\<lambda>n. 0) registry_a 0 6)
   \<and> 6 \<le> length (URLForm_generate_short_code (\<lambda>n. 0) registry_a 0 6)
   \<and> length (URLForm_generate_short_code (\<lambda>n. 0) registry_a 0 6) \<le> 11"
proof -
  have "longest_code registry_a = 10" by (simp add: registry_a_def link_A_def)
  with URLForm_generate_short_code_unbounded_escalation [of registry_a "\<lambda>n. 0" 0 6]
  show ?thesis by simp
qed

text \<open>The loop of \<open>URL.generate_short_code\<close> does not end on that table and random source:
  every draw is \<open>aaaaaa\<close>, which is taken.\<close>

lemma choices_zero: "choices (\<lambda>n. 0) pos 6 = ''aaaaaa''"
  by (simp add: choices_def chars_def upt_rec)

lemma URL_generate_short_code_stuck:
  "URL_generate_short_code r us p n = Some y \<Longrightarrow>
     \<not> (r = (\<lambda>n. 0) \<and> us = registry_a \<and> n = 6)"
proof (rule URL_generate_short_code.raw_induct
    [where P = "\<lambda>r us p n y. \<not> (r = (\<lambda>n. 0) \<and> us = registry_a \<and> n = 6)"])
  fix f :: "(nat \<Rightarrow> nat) \<Rightarrow> URL list \<Rightarrow> nat \<Rightarrow> nat \<Rightarrow> string option"
    and r us p n y
  assume IH: "\<And>r us p n y. f r us p n = Some y \<Longrightarrow>
     \<not> (r = (\<lambda>n. 0) \<and> us = registry_a \<and> n = 6)"
  assume body: "(let code = choices r p n
      in if \<not> short_code_exists us code then Some code else f r us (p + n) n) = Some y"
  show "\<not> (r = (\<lambda>n. 0) \<and> us = registry_a \<and> n = 6)"
  proof
    assume a: "r = (\<lambda>n. 0) \<and> us = registry_a \<and> n = 6"
    then have "short_code_exists us (choices r p n)"
      by (simp add: choices_zero short_code_exists_def registry_a_def)
    with body have "f r us (p + n) n = Some y" by (simp add: Let_def)
    from IH [OF this] a show False by simp
  qed
qed

lemma URL_generate_short_code_diverges:
  "URL_generate_short_code (\<lambda>n. 0) registry_a 0 6 = None"
proof (cases "URL_generate_short_code (\<lambda>n. 0) registry_a 0 6")
  case None
  then show ?thesis .
next
  case (Some y)
  from URL_generate_short_code_stuck [OF Some] show ?thesis by simp
qed

section \<open>Requested codes\<close>

text \<open>Every character the generator draws from passes the check of the validator.\<close>

lemma chars_isalnum: "c \<in> set chars \<Longrightarrow> isalnum c"
  by (auto simp: chars_def isalnum_def code_point_def)

text \<open>C6, counterexample: the three-character code \<open>abc\<close> is accepted, where the claim
  has every code shorter than 6 characters fail.\<close>

theorem short_custom_code_accepted:
  "clean_custom_short_code [] ''abc'' = Inr (Some ''abc'') \<and> length ''abc'' < (6::nat)"
  by (simp add: clean_custom_short_code_def isalnum_def code_point_def short_code_exists_def)

text \<open>
  C6, as amended. A requested code fails with the character-set error whenever one of its
  characters is neither alphanumeric (\<open>str.isalnum\<close>) nor a hyphen nor an underscore; a
  non-empty code of permitted characters fails with the in-use error whenever a link with
  that code exists; a code is accepted exactly when it is non-empty, of permitted characters
  and carried by no link; the empty string stands for no requested code; and the outcome
  does not depend on which links are active. No length bound is checked.
\<close>

theorem clean_custom_short_code_checks:
  "(\<not> list_all (\<lambda>c. isalnum c \<or> c = CHR ''-'' \<or> c = CHR ''_'') custom \<longrightarrow>
      clean_custom_short_code us custom = Inl (ValidationError
        ''Short code can only contain letters, numbers, hyphens, and underscores.''))
   \<and> (custom \<noteq> [] \<and> list_all (\<lambda>c. isalnum c \<or> c = CHR ''-'' \<or> c = CHR ''_'') custom
        \<and> (\<exists>u\<in>set us. short_code u = custom) \<longrightarrow>
      clean_custom_short_code us custom = Inl (ValidationError
        ''This short code is already in use. Please choose another one.''))
   \<and> (clean_custom_short_code us custom = Inr (Some accepted))
       = (accepted = custom \<and> custom \<noteq> []
          \<and> list_all (\<lambda>c. isalnum c \<or> c = CHR ''-'' \<or> c = CHR ''_'') custom
          \<and> \<not> (\<exists>u\<in>set us. short_code u = custom))
   \<and> (clean_custom_short_code us custom = Inr None) = (custom = [])
   \<and> clean_custom_short_code (map (\<lambda>u. u\<lparr>is_active := active u\<rparr>) us) custom
       = clean_custom_short_code us custom"
proof -
  have ex: "short_code_exists (map (\<lambda>u. u\<lparr>is_active := active u\<rparr>) us) custom
      = short_code_exists us custom"
    by (auto simp: short_code_exists_iff)
  have nonempty: "\<not> list_all (\<lambda>c. isalnum c \<or> c = CHR ''-'' \<or> c = CHR ''_'') custom \<Longrightarrow> custom \<noteq> []"
    by auto
  show ?thesis
    using nonempty unfolding clean_custom_short_code_def ex
    by (auto simp: short_code_exists_iff)
qed

text \<open>C6, witness: the code of an inactive link is refused as in use, and a code with a
  blank is refused for its characters.\<close>

theorem clean_custom_short_code_checks_witness:
  "clean_custom_short_code (urls db_inactive) ''abc123''
     = Inl (ValidationError ''This short code is already in use. Please choose another one.'')
   \<and> clean_custom_short_code (urls db_inactive) ''abc 123''
     = Inl (ValidationError
        ''Short code can only contain letters, numbers, hyphens, and underscores.'')"
proof -
  have a: "list_all (\<lambda>c. isalnum c \<or> c = CHR ''-'' \<or> c = CHR ''_'') ''abc123''"
    by (simp add: isalnum_def code_point_def)
  have b: "\<not> list_all (\<lambda>c. isalnum c \<or> c = CHR ''-'' \<or> c = CHR ''_'') ''abc 123''"
    by (simp add: isalnum_def code_point_def)
  have c: "\<exists>u\<in>set (urls db_inactive). short_code u = ''abc123''"
    by (simp add: link_A_def db_inactive_def)
  from clean_custom_short_code_checks [of "''abc123''" "urls db_inactive"] a c
  have 1: "clean_custom_short_code (urls db_inactive) ''abc123''
     = Inl (ValidationError ''This short code is already in use. Please choose another one.'')"
    by simp
  from clean_custom_short_code_checks [of "''abc 123''" "urls db_inactive"] b
  have 2: "clean_custom_short_code (urls db_inactive) ''abc 123''
     = Inl (ValidationError
        ''Short code can only contain letters, numbers, hyphens, and underscores.'')"
    by blast
  from 1 2 show ?thesis by simp
qed

section \<open>User-agent derivation\<close>

text \<open>
  C8, as amended. For a non-empty user-agent string, \<open>get_user_agent_info\<close> gives the
  browser and the operating system of the first matching rule of their ordered tables on the
  lower-cased string and leaves them unset when no rule matches; the device type is that of
  the first matching device rule and defaults to \<open>desktop\<close> when none matches. For an
  absent or empty string all three are unset. The click recorder matches the raw string
  against its own device table, defaults to \<open>Desktop\<close>, and always leaves browser and
  operating system empty.
\<close>

theorem get_user_agent_info_rules:
  "get_user_agent_info None = (None, None, None)
   \<and> get_user_agent_info (Some ua) =
       (if ua = [] then (None, None, None)
        else (Some (case first_match device_rules (lower ua) of
                      None \<Rightarrow> ''desktop'' | Some d \<Rightarrow> d),
              first_match browser_rules (lower ua),
              first_match os_rules (lower ua)))
   \<and> device_type (create_from_request url request) =
       (case first_match click_device_rules
               (case HTTP_USER_AGENT request of None \<Rightarrow> [] | Some a \<Rightarrow> a) of
          None \<Rightarrow> ''Desktop'' | Some d \<Rightarrow> d)
   \<and> browser (create_from_request url request) = []
   \<and> os (create_from_request url request) = []"
  by (simp add: get_user_agent_info_def create_from_request_def device_rules_def browser_rules_def
        os_rules_def click_device_rules_def rule_matches_def Let_def)

text \<open>C8, counterexample: for \<open>curl/8.0\<close> no device rule matches, and the device type
  is set to the default \<open>desktop\<close> (\<open>Desktop\<close> on the click) rather than left unset.\<close>

theorem unmatched_device_type_defaults:
  "first_match device_rules (lower ''curl/8.0'') = None
   \<and> get_user_agent_info (Some ''curl/8.0'') = (Some ''desktop'', None, None)
   \<and> first_match click_device_rules ''curl/8.0'' = None
   \<and> device_type (create_from_request link_A request_A) = ''Desktop''"
  by code_simp

text \<open>C8, witness: a mobile Chrome on Windows.\<close>

theorem get_user_agent_info_rules_witness:
  "get_user_agent_info (Some ''Chrome/120 (Windows NT; Mobile)'')
     = (Some ''mobile'', Some ''Chrome'', Some ''Windows'')
   \<and> device_type (create_from_request link_A request_chrome) = ''Mobile''"
proof -
  have a: "first_match device_rules (lower ''Chrome/120 (Windows NT; Mobile)'') = Some ''mobile''"
    by code_simp
  have b: "first_match browser_rules (lower ''Chrome/120 (Windows NT; Mobile)'') = Some ''Chrome''"
    by code_simp
  have c: "first_match os_rules (lower ''Chrome/120 (Windows NT; Mobile)'') = Some ''Windows''"
    by code_simp
  have d: "first_match click_device_rules ''Chrome/120 (Windows NT; Mobile)'' = Some ''Mobile''"
    by code_simp
  have e: "HTTP_USER_AGENT request_chrome = Some ''Chrome/120 (Windows NT; Mobile)''"
    by (simp add: request_chrome_def)
  from get_user_agent_info_rules [of "''Chrome/120 (Windows NT; Mobile)''" link_A request_chrome]
  show ?thesis unfolding a b c e by (simp add: d)
qed

section \<open>Analytics\<close>

lemma values_count_set:
  "set (values_count vs) = {(v, n). v \<in> set vs \<and> n = length (filter (\<lambda>w. w = v) vs)}"
  by (auto simp: values_count_def)

lemma values_count_distinct: "distinct (map fst (values_count vs))"
  by (simp add: values_count_def comp_def)

lemma filter_nonempty_count:
  "v \<noteq> [] \<Longrightarrow> filter (\<lambda>x. x \<noteq> [] \<and> x = v) vs = filter (\<lambda>w. w = v) vs"
  by (rule filter_cong) auto

lemma sorted_take_drop:
  assumes "sorted (map k xs)" "x \<in> set (take n xs)" "y \<in> set (drop n xs)"
  shows "k x \<le> k y"
proof -
  have "sorted (map k (take n xs) @ map k (drop n xs))"
    using assms(1) by (simp flip: map_append)
  then show ?thesis using assms(2,3) by (auto simp: sorted_append)
qed

lemma top_values_is_top:
  assumes perm: "\<forall>gs. mset (engine gs) = mset gs"
  shows "is_top_values vs (top_values engine vs)"
proof -
  define G where "G = values_count (filter (\<lambda>v. v \<noteq> []) vs)"
  define S where "S = order_by_count_desc (engine G)"
  define R where "R = take 10 S"
  have R: "top_values engine vs = R"
    by (simp add: top_values_def R_def S_def G_def)
  have mset_S: "mset S = mset G"
    using perm by (simp add: S_def order_by_count_desc_def)
  then have set_S: "set S = set G" by (rule mset_eq_setD)
  have "mset (map fst S) = mset (map fst G)" using mset_S by simp
  then have dist_S: "distinct (map fst S)"
    using values_count_distinct [of "filter (\<lambda>v. v \<noteq> []) vs"]
    by (metis G_def mset_eq_imp_distinct_iff)
  have sorted_S: "sorted (map (\<lambda>g. - int (snd g)) S)"
    by (simp add: S_def order_by_count_desc_def)
  have set_G: "set G = {(v, n). v \<in> set vs \<and> v \<noteq> [] \<and> n = length (filter (\<lambda>w. w = v) vs)}"
    by (auto simp: G_def values_count_set filter_nonempty_count)
  have len: "length R \<le> 10" by (simp add: R_def)
  have "sorted_wrt (\<lambda>g h. - int (snd g) \<le> - int (snd h)) S"
    using sorted_S by (simp add: sorted_map)
  then have "sorted_wrt (\<lambda>g h. snd h \<le> snd g) S" by simp
  then have srt: "sorted_wrt (\<lambda>g h. snd h \<le> snd g) R"
    unfolding R_def by (rule sorted_wrt_take)
  have dist: "distinct (map fst R)"
    using dist_S by (simp add: R_def take_map [symmetric])
  have sub: "set R \<subseteq> set G" using set_S by (auto simp: R_def dest: in_set_takeD)
  have elems: "\<forall>g\<in>set R. fst g \<noteq> [] \<and> fst g \<in> set vs
      \<and> snd g = length (filter (\<lambda>w. w = fst g) vs)"
    using sub set_G by auto
  have top: "\<forall>v\<in>set vs. v \<noteq> [] \<longrightarrow> v \<in> fst ` set R
      \<or> (length R = 10 \<and> (\<forall>g\<in>set R. length (filter (\<lambda>w. w = v) vs) \<le> snd g))"
  proof (intro ballI impI)
    fix v assume v: "v \<in> set vs" "v \<noteq> []"
    let ?g = "(v, length (filter (\<lambda>w. w = v) vs))"
    have "?g \<in> set S" using v set_S set_G by simp
    then have "?g \<in> set (take 10 S) \<union> set (drop 10 S)"
      by (metis append_take_drop_id set_append)
    then consider "?g \<in> set R" | "?g \<in> set (drop 10 S)" by (auto simp: R_def)
    then show "v \<in> fst ` set R
      \<or> (length R = 10 \<and> (\<forall>g\<in>set R. length (filter (\<lambda>w. w = v) vs) \<le> snd g))"
    proof cases
      case 1
      then have "fst ?g \<in> fst ` set R" by (rule imageI)
      then show ?thesis by simp
    next
      case 2
      then have "drop 10 S \<noteq> []" by auto
      then have "length R = 10" by (simp add: R_def)
      moreover have "length (filter (\<lambda>w. w = v) vs) \<le> snd g" if "g \<in> set R" for g
        using sorted_take_drop [OF sorted_S, of g 10 ?g] that 2 by (simp add: R_def)
      ultimately show ?thesis by blast
    qed
  qed
  from len srt dist elems top show ?thesis
    unfolding R is_top_values_def by blast
qed

text \<open>
  C9, as amended. For a link of the signed-in user, and whatever order the database hands
  groups over in, the statistics recomputed over the link's click rows are: the number of
  rows; the number of distinct \<open>ip_address\<close> values, an absent address counting as one
  value; the dates of the rows in ascending order, each once, with the number of rows on
  that date; and for referrers and user agents at most ten non-empty values in descending
  order of count, each with its number of rows, such that no value left out is more frequent
  than one listed. The order among values of equal count is the database's.
\<close>

theorem url_stats_recomputed:
  assumes "\<forall>gs. mset (engine gs) = mset gs"
    and "objects_get (\<lambda>u. short_code u = code \<and> created_by u = Some user) (urls db) = Inr url"
  shows "\<exists>s. url_stats date_of engine user code db = Inr s
     \<and> total_clicks s = length (filter (\<lambda>c. url_id c = pk url) (clicks db))
     \<and> unique_visitors s = card (ip_address ` set (filter (\<lambda>c. url_id c = pk url) (clicks db)))
     \<and> sorted (map fst (clicks_by_date s)) \<and> distinct (map fst (clicks_by_date s))
     \<and> set (clicks_by_date s) =
         {(d, n). d \<in> (\<lambda>c. date_of (clicked_at c)) ` set (filter (\<lambda>c. url_id c = pk url) (clicks db))
            \<and> n = length (filter (\<lambda>c. date_of (clicked_at c) = d)
                    (filter (\<lambda>c. url_id c = pk url) (clicks db)))}
     \<and> is_top_values (map referrer (filter (\<lambda>c. url_id c = pk url) (clicks db))) (top_referrers s)
     \<and> is_top_values (map user_agent (filter (\<lambda>c. url_id c = pk url) (clicks db)))
          (top_user_agents s)"
proof -
  define rows where "rows = filter (\<lambda>c. url_id c = pk url) (clicks db)"
  define s where "s = \<lparr> total_clicks = length rows,
      unique_visitors = length (remdups (map ip_address rows)),
      clicks_by_date =
        map (\<lambda>d. (d, length (filter (\<lambda>c. date_of (clicked_at c) = d) rows)))
          (sort (remdups (map (\<lambda>c. date_of (clicked_at c)) rows))),
      top_referrers = top_values engine (map referrer rows),
      top_user_agents = top_values engine (map user_agent rows) \<rparr>"
  have res: "url_stats date_of engine user code db = Inr s"
    using assms(2) by (simp add: url_stats_def s_def rows_def Let_def)
  have t: "total_clicks s = length rows" by (simp add: s_def)
  have u: "unique_visitors s = card (ip_address ` set rows)"
    by (simp add: s_def length_remdups_card_conv)
  have fst_cbd: "map fst (clicks_by_date s) = sort (remdups (map (\<lambda>c. date_of (clicked_at c)) rows))"
    by (simp add: s_def comp_def)
  have d1: "sorted (map fst (clicks_by_date s))" unfolding fst_cbd by simp
  have d2: "distinct (map fst (clicks_by_date s))" unfolding fst_cbd by simp
  have d3: "set (clicks_by_date s) =
      {(d, n). d \<in> (\<lambda>c. date_of (clicked_at c)) ` set rows
         \<and> n = length (filter (\<lambda>c. date_of (clicked_at c) = d) rows)}"
    by (auto simp: s_def)
  have r: "is_top_values (map referrer rows) (top_referrers s)"
    using top_values_is_top [OF assms(1)] by (simp add: s_def)
  have a: "is_top_values (map user_agent rows) (top_user_agents s)"
    using top_values_is_top [OF assms(1)] by (simp add: s_def)
  from res t u d1 d2 d3 r a show ?thesis unfolding rows_def by blast
qed

text \<open>
  C9, counterexample. Two referrers seen once each, \<open>a.test\<close> first: when the database
  hands the groups over in the other order, \<open>b.test\<close> is listed first, not the value first
  seen. (The click without referrer is in no list either way.)
\<close>

theorem tied_referrers_in_engine_order:
  "url_stats day rev 1 ''abc123'' db_clicks =
     Inr \<lparr> total_clicks = 3, unique_visitors = 2, clicks_by_date = [(0, 1), (1, 2)],
           top_referrers = [(''https://b.test/'', 1), (''https://a.test/'', 1)],
           top_user_agents = [(''curl/8.0'', 3)] \<rparr>
   \<and> top_n_first_seen 10 (filter (\<lambda>v. v \<noteq> []) (map referrer (clicks db_clicks)))
       = [(''https://a.test/'', 1), (''https://b.test/'', 1)]
   \<and> top_n_first_seen 10 (map referrer (clicks db_clicks))
       = [(''https://a.test/'', 1), (''https://b.test/'', 1), ([], 1)]"
  by code_simp

text \<open>C9, witness: the three clicks of \<open>db_clicks\<close>.\<close>

theorem url_stats_recomputed_witness:
  "(\<exists>s. url_stats day id 1 ''abc123'' db_clicks = Inr s
      \<and> total_clicks s = 3 \<and> unique_visitors s = 2
      \<and> is_top_values (map referrer (clicks db_clicks)) (top_referrers s))"
proof -
  have p: "\<forall>gs :: (string \<times> nat) list. mset (id gs) = mset gs" by simp
  have g: "objects_get (\<lambda>u. short_code u = ''abc123'' \<and> created_by u = Some 1) (urls db_clicks)
      = Inr (link_A\<lparr>click_count := 3\<rparr>)"
    by (simp add: objects_get_def db_clicks_def link_A_def)
  have rows: "filter (\<lambda>c. url_id c = pk (link_A\<lparr>click_count := 3\<rparr>)) (clicks db_clicks)
      = clicks db_clicks"
    by (simp add: db_clicks_def click_1_def link_A_def)
  have n: "length (clicks db_clicks) = 3" by (simp add: db_clicks_def)
  have c: "card (ip_address ` set (clicks db_clicks)) = 2"
    by (simp add: db_clicks_def click_1_def)
  from url_stats_recomputed [OF p g, of day] show ?thesis
    unfolding rows n c by blast
qed

end
